theory Spec2Isabelle
  imports Main
begin

section \<open>Data model of the undo stack (src/src/index.ts)\<close>

text \<open>
  A callback of the source is a zero-argument closure \<^verbatim>\<open>() => T\<close>. It may read and
  change whatever the caller closed it over, and it may throw. The model gives the
  closed-over environment a type \<open>'w\<close> of its own: a callback maps the environment to
  its outcome (\<open>Inl\<close> the thrown value, \<open>Inr\<close> the returned one) and the environment it
  leaves behind. The environment is disjoint from the arrays of the engine.
\<close>

datatype error = Thrown string

type_synonym addr = nat

record ('a, 'w) Command =
  name :: "string option"
  undo_fn :: "'w \<Rightarrow> (error + 'a) \<times> 'w"
  execute_fn :: "'w \<Rightarrow> (error + 'a) \<times> 'w"

text \<open>
  \<^verbatim>\<open>maxStackSize?: number\<close>: the key may be missing from the object, be there with the
  value \<^verbatim>\<open>undefined\<close>, or hold a number. Sizes are integer-valued numbers here, of
  either sign; fractions and NaN are outside the model.
\<close>

datatype property = Absent | Undefined | Number int

record Options =
  maxStackSize :: property

text \<open>
  A \<^verbatim>\<open>State\<close> object holds references to its two arrays. The engine never assigns to a
  field of a state object, so the object is a value here; the arrays are mutated by
  \<^verbatim>\<open>pop\<close> and \<^verbatim>\<open>shift\<close>, so they live in a store and a state holds their addresses.
\<close>

record 'a State =
  current :: 'a
  options :: Options
  undos :: addr
  redos :: addr

record ('a, 'w) machine =
  world :: 'w
  arrays :: "addr \<Rightarrow> ('a, 'w) Command list"
  limit :: addr

subsection \<open>Array primitives\<close>

text \<open>An array literal or spread expression allocates a new array at the next free address.\<close>

definition new_array ::
  "('a, 'w) Command list \<Rightarrow> ('a, 'w) machine \<Rightarrow> addr \<times> ('a, 'w) machine" where
  "new_array xs m =
     (limit m, m\<lparr>arrays := (arrays m)(limit m := xs), limit := Suc (limit m)\<rparr>)"

text \<open>\<^verbatim>\<open>a.pop()\<close> removes the last element in place; on an empty array it gives undefined.\<close>

definition pop ::
  "addr \<Rightarrow> ('a, 'w) machine \<Rightarrow> ('a, 'w) Command option \<times> ('a, 'w) machine" where
  "pop a m =
     (if arrays m a = [] then (None, m)
      else (Some (last (arrays m a)), m\<lparr>arrays := (arrays m)(a := butlast (arrays m a))\<rparr>))"

text \<open>\<^verbatim>\<open>a.shift()\<close> removes the first element in place; an empty array stays empty.\<close>

definition shift :: "addr \<Rightarrow> ('a, 'w) machine \<Rightarrow> ('a, 'w) machine" where
  "shift a m =
     (case arrays m a of
        [] \<Rightarrow> m
      | x # rest \<Rightarrow> m\<lparr>arrays := (arrays m)(a := rest)\<rparr>)"

text \<open>
  The guard \<^verbatim>\<open>state.options.maxStackSize && stack.length > state.options.maxStackSize\<close>:
  undefined and 0 are falsy, every other integer is truthy.
\<close>

definition over_limit :: "Options \<Rightarrow> nat \<Rightarrow> bool" where
  "over_limit opts len =
     (case maxStackSize opts of
        Number n \<Rightarrow> n \<noteq> 0 \<and> n < int len
      | Undefined \<Rightarrow> False
      | Absent \<Rightarrow> False)"

subsection \<open>Operations\<close>

text \<open>
  \<^verbatim>\<open>createStack(initial, options = {})\<close>: the spread \<^verbatim>\<open>{maxStackSize: 10, ...options}\<close>
  copies every own key of \<^verbatim>\<open>options\<close>, also one whose value is undefined.
\<close>

definition createStack ::
  "'a \<Rightarrow> Options option \<Rightarrow> ('a, 'w) machine \<Rightarrow> 'a State \<times> ('a, 'w) machine" where
  "createStack initial options_arg m =
     (let opts = (case options_arg of None \<Rightarrow> \<lparr>maxStackSize = Absent\<rparr> | Some given \<Rightarrow> given);
          merged = \<lparr>maxStackSize =
                      (case maxStackSize opts of
                         Absent \<Rightarrow> Number 10
                       | Undefined \<Rightarrow> Undefined
                       | Number n \<Rightarrow> Number n)\<rparr>;
          (u, m1) = new_array [] m;
          (r, m2) = new_array [] m1
      in (\<lparr>current = initial, options = merged, undos = u, redos = r\<rparr>, m2))"

definition execute ::
  "'a State \<Rightarrow> ('a, 'w) Command \<Rightarrow> ('a, 'w) machine
     \<Rightarrow> (error + 'a State) \<times> ('a, 'w) machine" where
  "execute state command m =
     (case execute_fn command (world m) of
        (Inl e, w) \<Rightarrow> (Inl e, m\<lparr>world := w\<rparr>)
      | (Inr current', w) \<Rightarrow>
          (let m1 = m\<lparr>world := w\<rparr>;
               (stack, m2) = new_array (arrays m1 (undos state) @ [command]) m1;
               m3 = (if over_limit (options state) (length (arrays m2 stack))
                     then shift stack m2 else m2);
               (empty, m4) = new_array [] m3
           in (Inr \<lparr>current = current', options = options state,
                     undos = stack, redos = empty\<rparr>, m4)))"

definition undo ::
  "'a State \<Rightarrow> ('a, 'w) machine \<Rightarrow> (error + 'a State) \<times> ('a, 'w) machine" where
  "undo state m =
     (if length (arrays m (undos state)) = 0 then (Inr state, m)
      else
        (case pop (undos state) m of
           (None, m1) \<Rightarrow> (Inr state, m1)
         | (Some command, m1) \<Rightarrow>
             (case undo_fn command (world m1) of
                (Inl e, w) \<Rightarrow> (Inl e, m1\<lparr>world := w\<rparr>)
              | (Inr current', w) \<Rightarrow>
                  (let m2 = m1\<lparr>world := w\<rparr>;
                       (stack, m3) = new_array (arrays m2 (redos state) @ [command]) m2;
                       m4 = (if over_limit (options state) (length (arrays m3 stack))
                             then shift stack m3 else m3)
                   in (Inr \<lparr>current = current', options = options state,
                             undos = undos state, redos = stack\<rparr>, m4)))))"

definition redo ::
  "'a State \<Rightarrow> ('a, 'w) machine \<Rightarrow> (error + 'a State) \<times> ('a, 'w) machine" where
  "redo state m =
     (if length (arrays m (redos state)) = 0 then (Inr state, m)
      else
        (case pop (redos state) m of
           (None, m1) \<Rightarrow> (Inr state, m1)
         | (Some command, m1) \<Rightarrow>
             (case execute_fn command (world m1) of
                (Inl e, w) \<Rightarrow> (Inl e, m1\<lparr>world := w\<rparr>)
              | (Inr current', w) \<Rightarrow>
                  (let m2 = m1\<lparr>world := w\<rparr>;
                       (stack, m3) = new_array (arrays m2 (undos state) @ [command]) m2;
                       m4 = (if over_limit (options state) (length (arrays m3 stack))
                             then shift stack m3 else m3)
                   in (Inr \<lparr>current = current', options = options state,
                             undos = stack, redos = redos state\<rparr>, m4)))))"

definition clear ::
  "'a State \<Rightarrow> ('a, 'w) machine \<Rightarrow> 'a State \<times> ('a, 'w) machine" where
  "clear state m =
     (let (u, m1) = new_array [] m;
          (r, m2) = new_array [] m1
      in (\<lparr>current = current state, options = options state, undos = u, redos = r\<rparr>, m2))"

definition can_undo :: "'a State \<Rightarrow> ('a, 'w) machine \<Rightarrow> bool" where
  "can_undo state m = (length (arrays m (undos state)) > 0)"

definition can_redo :: "'a State \<Rightarrow> ('a, 'w) machine \<Rightarrow> bool" where
  "can_redo state m = (length (arrays m (redos state)) > 0)"

subsection \<open>Callers\<close>

text \<open>
  A configuration is what a caller holds: a state and the machine it lives in. The
  contents of the two stacks of a state are read through the store.
\<close>

type_synonym ('a, 'w) config = "'a State \<times> ('a, 'w) machine"

definition undo_stack :: "('a, 'w) config \<Rightarrow> ('a, 'w) Command list" where
  "undo_stack cfg = arrays (snd cfg) (undos (fst cfg))"

definition redo_stack :: "('a, 'w) config \<Rightarrow> ('a, 'w) Command list" where
  "redo_stack cfg = arrays (snd cfg) (redos (fst cfg))"

text \<open>Both arrays of the state have been allocated (no dangling reference).\<close>

definition allocated :: "('a, 'w) config \<Rightarrow> bool" where
  "allocated cfg =
     (undos (fst cfg) < limit (snd cfg) \<and> redos (fst cfg) < limit (snd cfg))"

text \<open>
  A caller threads one state through the transitions, \<^verbatim>\<open>state = undo(state)\<close>. When a
  callback throws, the assignment does not happen: the caller keeps the state it passed
  in, in the machine as the transition left it.
\<close>

datatype ('a, 'w) action = Execute "('a, 'w) Command" | Undo | Redo | Clear

fun keep :: "'a State \<Rightarrow> (error + 'a State) \<times> ('a, 'w) machine \<Rightarrow> ('a, 'w) config" where
  "keep s (Inl e, m) = (s, m)"
| "keep s (Inr s', m) = (s', m)"

fun step :: "('a, 'w) action \<Rightarrow> ('a, 'w) config \<Rightarrow> ('a, 'w) config" where
  "step (Execute c) (s, m) = keep s (execute s c m)"
| "step Undo (s, m) = keep s (undo s m)"
| "step Redo (s, m) = keep s (redo s m)"
| "step Clear (s, m) = clear s m"

fun run :: "('a, 'w) action list \<Rightarrow> ('a, 'w) config \<Rightarrow> ('a, 'w) config" where
  "run [] cfg = cfg"
| "run (a # rest) cfg = run rest (step a cfg)"

subsection \<open>Reading a configuration by value\<close>

text \<open>
  A state holds two different, allocated arrays: every state the engine returns does.
\<close>

definition well_formed :: "('a, 'w) config \<Rightarrow> bool" where
  "well_formed cfg = (allocated cfg \<and> undos (fst cfg) \<noteq> redos (fst cfg))"

text \<open>
  What a caller can observe of a configuration: the fields of the state, the contents of
  its two arrays and the environment of the callbacks. \<open>next_snapshot\<close> is the effect of
  one caller step on these values; lemma \<open>step_snapshot\<close> proves it against the
  operations above, so that properties of call sequences can be shown on lists.
\<close>

record ('a, 'w) snapshot =
  seen_current :: 'a
  seen_options :: Options
  seen_undos :: "('a, 'w) Command list"
  seen_redos :: "('a, 'w) Command list"
  seen_world :: 'w

definition snapshot :: "('a, 'w) config \<Rightarrow> ('a, 'w) snapshot" where
  "snapshot cfg =
     \<lparr>seen_current = current (fst cfg), seen_options = options (fst cfg),
      seen_undos = undo_stack cfg, seen_redos = redo_stack cfg,
      seen_world = world (snd cfg)\<rparr>"

definition evicted :: "Options \<Rightarrow> 'c list \<Rightarrow> 'c list" where
  "evicted opts stack = (if over_limit opts (length stack) then tl stack else stack)"

fun next_snapshot :: "('a, 'w) action \<Rightarrow> ('a, 'w) snapshot \<Rightarrow> ('a, 'w) snapshot" where
  "next_snapshot (Execute c) v =
     (case execute_fn c (seen_world v) of
        (Inl e, w) \<Rightarrow> v\<lparr>seen_world := w\<rparr>
      | (Inr x, w) \<Rightarrow>
          v\<lparr>seen_current := x, seen_undos := evicted (seen_options v) (seen_undos v @ [c]),
            seen_redos := [], seen_world := w\<rparr>)"
| "next_snapshot Undo v =
     (if seen_undos v = [] then v
      else
        (case undo_fn (last (seen_undos v)) (seen_world v) of
           (Inl e, w) \<Rightarrow> v\<lparr>seen_undos := butlast (seen_undos v), seen_world := w\<rparr>
         | (Inr x, w) \<Rightarrow>
             v\<lparr>seen_current := x, seen_undos := butlast (seen_undos v),
               seen_redos := evicted (seen_options v) (seen_redos v @ [last (seen_undos v)]),
               seen_world := w\<rparr>))"
| "next_snapshot Redo v =
     (if seen_redos v = [] then v
      else
        (case execute_fn (last (seen_redos v)) (seen_world v) of
           (Inl e, w) \<Rightarrow> v\<lparr>seen_redos := butlast (seen_redos v), seen_world := w\<rparr>
         | (Inr x, w) \<Rightarrow>
             v\<lparr>seen_current := x,
               seen_undos := evicted (seen_options v) (seen_undos v @ [last (seen_redos v)]),
               seen_redos := butlast (seen_redos v), seen_world := w\<rparr>))"
| "next_snapshot Clear v = v\<lparr>seen_undos := [], seen_redos := []\<rparr>"

subsection \<open>Sample inputs\<close>

text \<open>
  The commands of the test suite return constants:
  \<^verbatim>\<open>{ execute: () => ({ value: 20 }), undo: () => ({ value: 10 }) }\<close>.
\<close>

definition const_command :: "'a \<Rightarrow> 'a \<Rightarrow> ('a, 'w) Command" where
  "const_command forward back =
     \<lparr>name = None, undo_fn = (\<lambda>w. (Inr back, w)), execute_fn = (\<lambda>w. (Inr forward, w))\<rparr>"

text \<open>A command whose inverse callback throws.\<close>

definition stuck_command :: "'a \<Rightarrow> ('a, 'w) Command" where
  "stuck_command forward =
     \<lparr>name = None, undo_fn = (\<lambda>w. (Inl (Thrown ''cannot undo''), w)),
      execute_fn = (\<lambda>w. (Inr forward, w))\<rparr>"

text \<open>
  A command whose forward callback returns the first time it is called and throws from
  then on; the environment counts the calls.
\<close>

definition once_command :: "'a \<Rightarrow> 'a \<Rightarrow> ('a, nat) Command" where
  "once_command forward back =
     \<lparr>name = None, undo_fn = (\<lambda>w. (Inr back, w)),
      execute_fn = (\<lambda>w. if w = 0 then (Inr forward, Suc w)
                          else (Inl (Thrown ''cannot redo''), w))\<rparr>"

definition empty_machine :: "'w \<Rightarrow> ('a, 'w) machine" where
  "empty_machine w = \<lparr>world = w, arrays = (\<lambda>a. []), limit = 0\<rparr>"

text \<open>
  The states of the test suite: a new stack with the default options, the same after one
  \<^verbatim>\<open>execute\<close>, and after \<^verbatim>\<open>execute\<close> and \<^verbatim>\<open>undo\<close>.
\<close>

definition fresh_stack :: "(int, unit) config" where
  "fresh_stack = createStack 10 None (empty_machine ())"

definition executed_stack :: "(int, unit) config" where
  "executed_stack = run [Execute (const_command 20 10)] fresh_stack"

definition undone_stack :: "(int, unit) config" where
  "undone_stack = run [Execute (const_command 20 10), Undo] fresh_stack"

text \<open>A stack holding a command that cannot be undone, and one holding a command that
  cannot be redone.\<close>

definition stuck_stack :: "(int, unit) config" where
  "stuck_stack = run [Execute (stuck_command 20)] fresh_stack"

definition once_stack :: "(int, nat) config" where
  "once_stack = run [Execute (once_command 20 10), Undo] (createStack 10 None (empty_machine 0))"

text \<open>New stacks created with \<^verbatim>\<open>{ maxStackSize: 0 }\<close>, \<^verbatim>\<open>{ maxStackSize: -1 }\<close>,
  \<^verbatim>\<open>{ maxStackSize: undefined }\<close> and \<^verbatim>\<open>{ maxStackSize: 1 }\<close>.\<close>

definition zero_stack :: "(int, unit) config" where
  "zero_stack = createStack 10 (Some \<lparr>maxStackSize = Number 0\<rparr>) (empty_machine ())"


definition undefined_stack :: "(int, unit) config" where
  "undefined_stack = createStack 10 (Some \<lparr>maxStackSize = Undefined\<rparr>) (empty_machine ())"

definition single_stack :: "(int, unit) config" where
  "single_stack = createStack 10 (Some \<lparr>maxStackSize = Number 1\<rparr>) (empty_machine ())"






text \<open>Two commands executed and the second one undone, from a given new stack.\<close>

definition two_then_undo :: "(int, unit) config \<Rightarrow> (int, unit) config" where
  "two_then_undo cfg = run [Execute (const_command 20 10), Execute (const_command 30 20), Undo] cfg"

section \<open>The operations, equation by equation\<close>

lemma shift_eq: "shift a m = m\<lparr>arrays := (arrays m)(a := tl (arrays m a))\<rparr>"
proof (cases "arrays m a")
  case Nil
  then have "(arrays m)(a := []) = arrays m"
    by (metis fun_upd_triv)
  with Nil show ?thesis by (simp add: shift_def)
next
  case (Cons x rest)
  then show ?thesis by (simp add: shift_def)
qed

lemma execute_throws:
  "execute_fn c (world m) = (Inl e, w) \<Longrightarrow> execute s c m = (Inl e, m\<lparr>world := w\<rparr>)"
  by (simp add: execute_def)

lemma execute_returns:
  "execute_fn c (world m) = (Inr v, w) \<Longrightarrow>
   execute s c m =
     (Inr \<lparr>current = v, options = options s, undos = limit m, redos = Suc (limit m)\<rparr>,
      m\<lparr>world := w,
        arrays := (arrays m)
          (limit m := (if over_limit (options s) (Suc (length (arrays m (undos s))))
                       then tl (arrays m (undos s) @ [c]) else arrays m (undos s) @ [c]),
           Suc (limit m) := []),
        limit := Suc (Suc (limit m))\<rparr>)"
  by (simp add: execute_def new_array_def shift_eq Let_def)

lemma undo_empty: "arrays m (undos s) = [] \<Longrightarrow> undo s m = (Inr s, m)"
  by (simp add: undo_def)

lemma undo_throws:
  "arrays m (undos s) \<noteq> [] \<Longrightarrow> undo_fn (last (arrays m (undos s))) (world m) = (Inl e, w) \<Longrightarrow>
   undo s m = (Inl e, m\<lparr>world := w, arrays := (arrays m)(undos s := butlast (arrays m (undos s)))\<rparr>)"
  by (simp add: undo_def pop_def)

lemma undo_returns:
  "arrays m (undos s) \<noteq> [] \<Longrightarrow> undo_fn (last (arrays m (undos s))) (world m) = (Inr v, w) \<Longrightarrow>
   undos s \<noteq> redos s \<Longrightarrow>
   undo s m =
     (Inr \<lparr>current = v, options = options s, undos = undos s, redos = limit m\<rparr>,
      m\<lparr>world := w,
        arrays := (arrays m)
          (undos s := butlast (arrays m (undos s)),
           limit m := (if over_limit (options s) (Suc (length (arrays m (redos s))))
                       then tl (arrays m (redos s) @ [last (arrays m (undos s))])
                       else arrays m (redos s) @ [last (arrays m (undos s))])),
        limit := Suc (limit m)\<rparr>)"
  by (simp add: undo_def pop_def new_array_def shift_eq Let_def)

lemma redo_empty: "arrays m (redos s) = [] \<Longrightarrow> redo s m = (Inr s, m)"
  by (simp add: redo_def)

lemma redo_throws:
  "arrays m (redos s) \<noteq> [] \<Longrightarrow> execute_fn (last (arrays m (redos s))) (world m) = (Inl e, w) \<Longrightarrow>
   redo s m = (Inl e, m\<lparr>world := w, arrays := (arrays m)(redos s := butlast (arrays m (redos s)))\<rparr>)"
  by (simp add: redo_def pop_def)

lemma redo_returns:
  "arrays m (redos s) \<noteq> [] \<Longrightarrow> execute_fn (last (arrays m (redos s))) (world m) = (Inr v, w) \<Longrightarrow>
   undos s \<noteq> redos s \<Longrightarrow>
   redo s m =
     (Inr \<lparr>current = v, options = options s, undos = limit m, redos = redos s\<rparr>,
      m\<lparr>world := w,
        arrays := (arrays m)
          (redos s := butlast (arrays m (redos s)),
           limit m := (if over_limit (options s) (Suc (length (arrays m (undos s))))
                       then tl (arrays m (undos s) @ [last (arrays m (redos s))])
                       else arrays m (undos s) @ [last (arrays m (redos s))])),
        limit := Suc (limit m)\<rparr>)"
  by (simp add: redo_def pop_def new_array_def shift_eq Let_def)

lemma clear_eq:
  "clear s m =
     (\<lparr>current = current s, options = options s, undos = limit m, redos = Suc (limit m)\<rparr>,
      m\<lparr>arrays := (arrays m)(limit m := [], Suc (limit m) := []), limit := Suc (Suc (limit m))\<rparr>)"
  by (simp add: clear_def new_array_def)

lemma createStack_eq:
  "createStack v arg m =
     (\<lparr>current = v,
       options = \<lparr>maxStackSize =
         (case arg of None \<Rightarrow> Number 10
          | Some given \<Rightarrow> (case maxStackSize given of Absent \<Rightarrow> Number 10 | Undefined \<Rightarrow> Undefined | Number n \<Rightarrow> Number n))\<rparr>,
       undos = limit m, redos = Suc (limit m)\<rparr>,
      m\<lparr>arrays := (arrays m)(limit m := [], Suc (limit m) := []), limit := Suc (Suc (limit m))\<rparr>)"
  by (simp add: createStack_def new_array_def split: option.splits)


lemmas read_defs = snapshot_def undo_stack_def redo_stack_def well_formed_def allocated_def evicted_def

lemma step_execute_snapshot:
  "well_formed (s, m) \<Longrightarrow>
   well_formed (step (Execute c) (s, m)) \<and>
   snapshot (step (Execute c) (s, m)) = next_snapshot (Execute c) (snapshot (s, m))"
proof (cases "execute_fn c (world m)")
  case (Pair r w)
  assume wf: "well_formed (s, m)"
  show ?thesis
  proof (cases r)
    case (Inl e)
    with Pair wf show ?thesis
      by (simp add: execute_throws read_defs)
  next
    case (Inr x)
    with Pair wf show ?thesis
      by (simp add: execute_returns read_defs)
  qed
qed

lemma step_undo_snapshot:
  "well_formed (s, m) \<Longrightarrow>
   well_formed (step Undo (s, m)) \<and>
   snapshot (step Undo (s, m)) = next_snapshot Undo (snapshot (s, m))"
proof (cases "arrays m (undos s) = []")
  case True
  assume "well_formed (s, m)"
  with True show ?thesis by (simp add: undo_empty read_defs)
next
  case False
  assume wf: "well_formed (s, m)"
  obtain r w where cb: "undo_fn (last (arrays m (undos s))) (world m) = (r, w)"
    by (cases "undo_fn (last (arrays m (undos s))) (world m)")
  show ?thesis
  proof (cases r)
    case (Inl e)
    with cb False wf show ?thesis
      by (simp add: undo_throws read_defs)
  next
    case (Inr x)
    with cb False wf show ?thesis
      by (simp add: undo_returns read_defs)
  qed
qed

lemma step_redo_snapshot:
  "well_formed (s, m) \<Longrightarrow>
   well_formed (step Redo (s, m)) \<and>
   snapshot (step Redo (s, m)) = next_snapshot Redo (snapshot (s, m))"
proof (cases "arrays m (redos s) = []")
  case True
  assume "well_formed (s, m)"
  with True show ?thesis by (simp add: redo_empty read_defs)
next
  case False
  assume wf: "well_formed (s, m)"
  obtain r w where cb: "execute_fn (last (arrays m (redos s))) (world m) = (r, w)"
    by (cases "execute_fn (last (arrays m (redos s))) (world m)")
  show ?thesis
  proof (cases r)
    case (Inl e)
    with cb False wf show ?thesis
      by (simp add: redo_throws read_defs)
  next
    case (Inr x)
    with cb False wf show ?thesis
      by (simp add: redo_returns read_defs)
  qed
qed

lemma step_clear_snapshot:
  "well_formed (step Clear (s, m)) \<and>
   snapshot (step Clear (s, m)) = next_snapshot Clear (snapshot (s, m))"
  by (simp add: clear_eq read_defs)

lemma step_snapshot:
  "well_formed cfg \<Longrightarrow>
   well_formed (step a cfg) \<and> snapshot (step a cfg) = next_snapshot a (snapshot cfg)"
  by (cases cfg; cases a)
     (simp_all only: step_execute_snapshot step_undo_snapshot step_redo_snapshot
        step_clear_snapshot simp_thms)

lemma run_snapshot:
  "well_formed cfg \<Longrightarrow>
   well_formed (run acts cfg) \<and> snapshot (run acts cfg) = fold next_snapshot acts (snapshot cfg)"
proof (induction acts arbitrary: cfg)
  case Nil
  then show ?case by simp
next
  case (Cons a acts)
  from Cons.prems have "well_formed (step a cfg)"
    and "snapshot (step a cfg) = next_snapshot a (snapshot cfg)"
    using step_snapshot by blast+
  with Cons.IH [of "step a cfg"] show ?case by simp
qed

lemma createStack_well_formed: "well_formed (createStack v arg m)"
  by (simp add: createStack_eq read_defs)

lemma createStack_snapshot:
  "snapshot (createStack v arg m) =
     \<lparr>seen_current = v, seen_options = options (fst (createStack v arg m)),
      seen_undos = [], seen_redos = [], seen_world = world m\<rparr>"
  by (simp add: createStack_eq read_defs)

section \<open>The arrays of the input\<close>

text \<open>
  \<^verbatim>\<open>createStack\<close>, \<^verbatim>\<open>execute\<close> and \<^verbatim>\<open>clear\<close> write to new arrays only: every array
  that exists when they are called is left as it was, also when the callback throws.
  \<^verbatim>\<open>undo\<close> and \<^verbatim>\<open>redo\<close> shorten an array of the state they are given, whether the
  callback returns or throws.
\<close>

lemma execute_leaves_arrays:
  "a < limit m \<Longrightarrow> arrays (snd (execute s c m)) a = arrays m a"
proof (cases "execute_fn c (world m)")
  case (Pair r w)
  assume "a < limit m"
  with Pair show ?thesis
    by (cases r) (simp_all add: execute_throws execute_returns)
qed

lemma clear_leaves_arrays:
  "a < limit m \<Longrightarrow> arrays (snd (clear s m)) a = arrays m a"
  by (simp add: clear_eq)

lemma createStack_leaves_arrays:
  "a < limit m \<Longrightarrow> arrays (snd (createStack v arg m)) a = arrays m a"
  by (simp add: createStack_eq)

lemma undo_pops_input:
  assumes "allocated (s, m)" and "undo_stack (s, m) \<noteq> []"
  shows "undo_stack (s, snd (undo s m)) = butlast (undo_stack (s, m))"
proof -
  from assms have ne: "arrays m (undos s) \<noteq> []" and lt: "undos s < limit m"
    by (simp_all add: undo_stack_def allocated_def)
  obtain r w where cb: "undo_fn (last (arrays m (undos s))) (world m) = (r, w)"
    by (cases "undo_fn (last (arrays m (undos s))) (world m)")
  from ne lt cb show ?thesis
    by (cases r)
       (simp_all add: undo_def pop_def new_array_def shift_eq Let_def undo_stack_def)
qed

lemma redo_pops_input:
  assumes "allocated (s, m)" and "redo_stack (s, m) \<noteq> []"
  shows "redo_stack (s, snd (redo s m)) = butlast (redo_stack (s, m))"
proof -
  from assms have ne: "arrays m (redos s) \<noteq> []" and lt: "redos s < limit m"
    by (simp_all add: redo_stack_def allocated_def)
  obtain r w where cb: "execute_fn (last (arrays m (redos s))) (world m) = (r, w)"
    by (cases "execute_fn (last (arrays m (redos s))) (world m)")
  from ne lt cb show ?thesis
    by (cases r)
       (simp_all add: redo_def pop_def new_array_def shift_eq Let_def redo_stack_def)
qed

section \<open>Call sequences\<close>

lemma next_snapshot_options: "seen_options (next_snapshot a v) = seen_options v"
  by (cases a) (auto split: prod.splits sum.splits)

lemma fold_snapshot_options: "seen_options (fold next_snapshot acts v) = seen_options v"
  by (induction acts arbitrary: v) (simp_all add: next_snapshot_options)

lemma run_options:
  "well_formed cfg \<Longrightarrow> options (fst (run acts cfg)) = options (fst cfg)"
proof -
  assume "well_formed cfg"
  then have "snapshot (run acts cfg) = fold next_snapshot acts (snapshot cfg)"
    using run_snapshot by blast
  then have "seen_options (snapshot (run acts cfg)) = seen_options (snapshot cfg)"
    by (simp add: fold_snapshot_options)
  then show ?thesis by (simp add: snapshot_def)
qed

lemma evicted_off: "\<not> over_limit opts (length stack) \<Longrightarrow> evicted opts stack = stack"
  by (simp add: evicted_def)

lemma length_evicted_le: "length (evicted opts stack) \<le> length stack"
  by (simp add: evicted_def)

lemma length_evicted_push:
  "maxStackSize opts = Number n \<Longrightarrow> 0 < n \<Longrightarrow> int (length stack) \<le> n \<Longrightarrow>
   int (length (evicted opts (stack @ [c]))) \<le> n"
  by (auto simp: evicted_def over_limit_def)

lemma move_total:
  assumes "xs \<noteq> []" and "length ys' \<le> Suc (length ys)"
    and "int (length xs) + int (length ys) \<le> n"
  shows "int (length (butlast xs)) + int (length ys') \<le> n"
proof -
  from assms(1) have "length xs = Suc (length (butlast xs))" by simp
  with assms(2,3) show ?thesis by linarith
qed

lemma next_snapshot_total:
  assumes "maxStackSize (seen_options v) = Number n" and "0 < n"
    and "int (length (seen_undos v)) + int (length (seen_redos v)) \<le> n"
  shows "int (length (seen_undos (next_snapshot a v))) +
         int (length (seen_redos (next_snapshot a v))) \<le> n"
proof (cases a)
  case (Execute c)
  from assms have "int (length (seen_undos v)) \<le> n" by simp
  with assms(1,2) have "int (length (evicted (seen_options v) (seen_undos v @ [c]))) \<le> n"
    by (rule length_evicted_push)
  with Execute assms(3) show ?thesis
    by (auto split: prod.splits sum.splits)
next
  case Undo
  have "length (evicted (seen_options v) (seen_redos v @ [last (seen_undos v)]))
          \<le> Suc (length (seen_redos v))"
    using length_evicted_le [of "seen_options v" "seen_redos v @ [last (seen_undos v)]"] by simp
  then have "seen_undos v \<noteq> [] \<Longrightarrow>
      int (length (butlast (seen_undos v))) +
      int (length (evicted (seen_options v) (seen_redos v @ [last (seen_undos v)]))) \<le> n"
    using assms(3) by (intro move_total)
  moreover have "int (length (butlast (seen_undos v))) + int (length (seen_redos v)) \<le> n"
    using assms(3) by simp
  ultimately show ?thesis
    using Undo assms(3)
    by (cases "seen_undos v = []") (simp_all split: prod.splits sum.splits)
next
  case Redo
  have le: "length (evicted (seen_options v) (seen_undos v @ [last (seen_redos v)]))
          \<le> Suc (length (seen_undos v))"
    using length_evicted_le [of "seen_options v" "seen_undos v @ [last (seen_redos v)]"] by simp
  have swapped: "int (length (seen_redos v)) + int (length (seen_undos v)) \<le> n"
    using assms(3) by linarith
  have "seen_redos v \<noteq> [] \<Longrightarrow>
      int (length (butlast (seen_redos v))) +
      int (length (evicted (seen_options v) (seen_undos v @ [last (seen_redos v)]))) \<le> n"
    by (rule move_total [OF _ le swapped])
  moreover have "int (length (seen_undos v)) + int (length (butlast (seen_redos v))) \<le> n"
    using assms(3) by simp
  ultimately show ?thesis
    using Redo assms(3)
    by (cases "seen_redos v = []") (simp_all add: add.commute split: prod.splits sum.splits)
next
  case Clear
  with assms(2) show ?thesis by simp
qed

lemma fold_snapshot_total:
  assumes "maxStackSize (seen_options v) = Number n" and "0 < n"
    and "int (length (seen_undos v)) + int (length (seen_redos v)) \<le> n"
  shows "int (length (seen_undos (fold next_snapshot acts v))) +
         int (length (seen_redos (fold next_snapshot acts v))) \<le> n"
  using assms
proof (induction acts arbitrary: v)
  case Nil
  then show ?case by simp
next
  case (Cons a acts)
  have "maxStackSize (seen_options (next_snapshot a v)) = Number n"
    using Cons.prems(1) by (simp add: next_snapshot_options)
  moreover have "int (length (seen_undos (next_snapshot a v))) +
      int (length (seen_redos (next_snapshot a v))) \<le> n"
    using Cons.prems by (rule next_snapshot_total)
  ultimately show ?case
    using Cons.IH [of "next_snapshot a v"] Cons.prems(2) by simp
qed

lemma created_total:
  assumes "maxStackSize (options (fst (createStack v arg m0))) = Number n" and "0 < n"
  shows "int (length (undo_stack (run acts (createStack v arg m0)))) +
         int (length (redo_stack (run acts (createStack v arg m0)))) \<le> n"
proof -
  let ?c = "createStack v arg m0"
  have snap: "snapshot (run acts ?c) = fold next_snapshot acts (snapshot ?c)"
    using run_snapshot [of ?c acts] createStack_well_formed [of v arg m0] by blast
  have "int (length (seen_undos (fold next_snapshot acts (snapshot ?c)))) +
        int (length (seen_redos (fold next_snapshot acts (snapshot ?c)))) \<le> n"
    using assms by (intro fold_snapshot_total) (simp_all add: createStack_snapshot)
  then show ?thesis
    unfolding snap [symmetric] by (simp add: snapshot_def)
qed

lemma seen_snapshot:
  "seen_current (snapshot cfg) = current (fst cfg)"
  "seen_options (snapshot cfg) = options (fst cfg)"
  "seen_undos (snapshot cfg) = undo_stack cfg"
  "seen_redos (snapshot cfg) = redo_stack cfg"
  "seen_world (snapshot cfg) = world (snd cfg)"
  by (simp_all add: snapshot_def)

lemma execute_returns_snapshot:
  "execute_fn c (world m) = (Inr x, w) \<Longrightarrow>
   well_formed (step (Execute c) (s, m)) \<and>
   snapshot (step (Execute c) (s, m)) = next_snapshot (Execute c) (snapshot (s, m))"
  by (simp add: execute_returns read_defs)

lemma step_execute_effect:
  assumes "execute_fn c (world (snd cfg)) = (Inr x, w)"
  shows "current (fst (step (Execute c) cfg)) = x"
    and "options (fst (step (Execute c) cfg)) = options (fst cfg)"
    and "undo_stack (step (Execute c) cfg) = evicted (options (fst cfg)) (undo_stack cfg @ [c])"
    and "redo_stack (step (Execute c) cfg) = []"
    and "world (snd (step (Execute c) cfg)) = w"
    and "well_formed (step (Execute c) cfg)"
proof -
  obtain s m where cfg: "cfg = (s, m)" by (cases cfg)
  with assms have "execute_fn c (world m) = (Inr x, w)" by simp
  then have both: "well_formed (step (Execute c) cfg) \<and>
      snapshot (step (Execute c) cfg) = next_snapshot (Execute c) (snapshot cfg)"
    unfolding cfg by (rule execute_returns_snapshot)
  with assms have eq: "snapshot (step (Execute c) cfg) =
      (snapshot cfg)\<lparr>seen_current := x,
        seen_undos := evicted (options (fst cfg)) (undo_stack cfg @ [c]),
        seen_redos := [], seen_world := w\<rparr>"
    by (simp add: seen_snapshot)
  from both show "well_formed (step (Execute c) cfg)" by simp
  show "current (fst (step (Execute c) cfg)) = x"
    using arg_cong [OF eq, of seen_current] by (simp add: seen_snapshot)
  show "options (fst (step (Execute c) cfg)) = options (fst cfg)"
    using arg_cong [OF eq, of seen_options] by (simp add: seen_snapshot)
  show "undo_stack (step (Execute c) cfg) = evicted (options (fst cfg)) (undo_stack cfg @ [c])"
    using arg_cong [OF eq, of seen_undos] by (simp add: seen_snapshot)
  show "redo_stack (step (Execute c) cfg) = []"
    using arg_cong [OF eq, of seen_redos] by (simp add: seen_snapshot)
  show "world (snd (step (Execute c) cfg)) = w"
    using arg_cong [OF eq, of seen_world] by (simp add: seen_snapshot)
qed

lemma step_undo_effect:
  assumes "well_formed cfg" and "undo_stack cfg \<noteq> []"
    and "undo_fn (last (undo_stack cfg)) (world (snd cfg)) = (Inr x, w)"
  shows "current (fst (step Undo cfg)) = x"
    and "options (fst (step Undo cfg)) = options (fst cfg)"
    and "undo_stack (step Undo cfg) = butlast (undo_stack cfg)"
    and "redo_stack (step Undo cfg) =
           evicted (options (fst cfg)) (redo_stack cfg @ [last (undo_stack cfg)])"
    and "world (snd (step Undo cfg)) = w"
    and "well_formed (step Undo cfg)"
proof -
  from assms(1) have both: "well_formed (step Undo cfg) \<and>
      snapshot (step Undo cfg) = next_snapshot Undo (snapshot cfg)"
    by (rule step_snapshot)
  with assms(2,3) have eq: "snapshot (step Undo cfg) =
      (snapshot cfg)\<lparr>seen_current := x, seen_undos := butlast (undo_stack cfg),
        seen_redos := evicted (options (fst cfg)) (redo_stack cfg @ [last (undo_stack cfg)]),
        seen_world := w\<rparr>"
    by (simp add: seen_snapshot)
  from both show "well_formed (step Undo cfg)" by simp
  show "current (fst (step Undo cfg)) = x"
    using arg_cong [OF eq, of seen_current] by (simp add: seen_snapshot)
  show "options (fst (step Undo cfg)) = options (fst cfg)"
    using arg_cong [OF eq, of seen_options] by (simp add: seen_snapshot)
  show "undo_stack (step Undo cfg) = butlast (undo_stack cfg)"
    using arg_cong [OF eq, of seen_undos] by (simp add: seen_snapshot)
  show "redo_stack (step Undo cfg) =
      evicted (options (fst cfg)) (redo_stack cfg @ [last (undo_stack cfg)])"
    using arg_cong [OF eq, of seen_redos] by (simp add: seen_snapshot)
  show "world (snd (step Undo cfg)) = w"
    using arg_cong [OF eq, of seen_world] by (simp add: seen_snapshot)
qed

lemma step_redo_effect:
  assumes "well_formed cfg" and "redo_stack cfg \<noteq> []"
    and "execute_fn (last (redo_stack cfg)) (world (snd cfg)) = (Inr x, w)"
  shows "current (fst (step Redo cfg)) = x"
    and "options (fst (step Redo cfg)) = options (fst cfg)"
    and "undo_stack (step Redo cfg) =
           evicted (options (fst cfg)) (undo_stack cfg @ [last (redo_stack cfg)])"
    and "redo_stack (step Redo cfg) = butlast (redo_stack cfg)"
    and "world (snd (step Redo cfg)) = w"
    and "well_formed (step Redo cfg)"
proof -
  from assms(1) have both: "well_formed (step Redo cfg) \<and>
      snapshot (step Redo cfg) = next_snapshot Redo (snapshot cfg)"
    by (rule step_snapshot)
  with assms(2,3) have eq: "snapshot (step Redo cfg) =
      (snapshot cfg)\<lparr>seen_current := x,
        seen_undos := evicted (options (fst cfg)) (undo_stack cfg @ [last (redo_stack cfg)]),
        seen_redos := butlast (redo_stack cfg), seen_world := w\<rparr>"
    by (simp add: seen_snapshot)
  from both show "well_formed (step Redo cfg)" by simp
  show "current (fst (step Redo cfg)) = x"
    using arg_cong [OF eq, of seen_current] by (simp add: seen_snapshot)
  show "options (fst (step Redo cfg)) = options (fst cfg)"
    using arg_cong [OF eq, of seen_options] by (simp add: seen_snapshot)
  show "undo_stack (step Redo cfg) =
      evicted (options (fst cfg)) (undo_stack cfg @ [last (redo_stack cfg)])"
    using arg_cong [OF eq, of seen_undos] by (simp add: seen_snapshot)
  show "redo_stack (step Redo cfg) = butlast (redo_stack cfg)"
    using arg_cong [OF eq, of seen_redos] by (simp add: seen_snapshot)
  show "world (snd (step Redo cfg)) = w"
    using arg_cong [OF eq, of seen_world] by (simp add: seen_snapshot)
qed


lemma fold_executes:
  assumes "\<forall>w. \<exists>x w'. execute_fn c w = (Inr x, w')"
    and "\<forall>k. \<not> over_limit (seen_options v) k"
  shows "seen_undos (fold next_snapshot (replicate k (Execute c)) v) = seen_undos v @ replicate k c"
  using assms(2)
proof (induction k arbitrary: v)
  case 0
  then show ?case by simp
next
  case (Suc k)
  from assms(1) obtain x w' where cb: "execute_fn c (seen_world v) = (Inr x, w')" by blast
  let ?v = "next_snapshot (Execute c) v"
  from Suc.prems have opts: "\<forall>k. \<not> over_limit (seen_options ?v) k"
    by (simp add: next_snapshot_options del: next_snapshot.simps)
  from cb Suc.prems have "seen_undos ?v = seen_undos v @ [c]"
    by (simp add: evicted_off)
  with Suc.IH [OF opts] show ?case
    by (simp add: replicate_app_Cons_same)
qed

lemma fold_undos:
  assumes "\<forall>w. \<exists>x w'. undo_fn c w = (Inr x, w')"
    and "\<forall>k. \<not> over_limit (seen_options v) k"
    and "seen_undos v = replicate k c"
  shows "seen_redos (fold next_snapshot (replicate k Undo) v) = seen_redos v @ replicate k c"
  using assms(2,3)
proof (induction k arbitrary: v)
  case 0
  then show ?case by simp
next
  case (Suc k)
  have "replicate (Suc k) c = replicate k c @ [c]"
    by (simp add: replicate_append_same)
  with Suc.prems(2) have snoc: "seen_undos v = replicate k c @ [c]" by simp
  then have ne: "seen_undos v \<noteq> []" and la: "last (seen_undos v) = c"
    and bl: "butlast (seen_undos v) = replicate k c"
    by simp_all
  from assms(1) obtain x w' where cb: "undo_fn c (seen_world v) = (Inr x, w')" by blast
  let ?v = "next_snapshot Undo v"
  from Suc.prems(1) have opts: "\<forall>k. \<not> over_limit (seen_options ?v) k"
    by (simp add: next_snapshot_options del: next_snapshot.simps)
  from cb ne la bl Suc.prems(1) have "seen_undos ?v = replicate k c"
    and "seen_redos ?v = seen_redos v @ [c]"
    by (simp_all add: evicted_off)
  with Suc.IH [OF opts] show ?case
    by (simp add: replicate_app_Cons_same)
qed

lemma fold_executes_redos:
  "seen_redos v = [] \<Longrightarrow> seen_redos (fold next_snapshot (replicate k (Execute c)) v) = []"
proof (induction k arbitrary: v)
  case 0
  then show ?case by simp
next
  case (Suc k)
  from Suc.prems have "seen_redos (next_snapshot (Execute c) v) = []"
    by (simp split: prod.splits sum.splits)
  with Suc.IH show ?case by simp
qed

lemma run_append: "run (xs @ ys) cfg = run ys (run xs cfg)"
  by (induction xs arbitrary: cfg) simp_all

lemma run_executes:
  assumes "well_formed cfg" and "\<forall>w. \<exists>x w'. execute_fn c w = (Inr x, w')"
    and "\<forall>k. \<not> over_limit (options (fst cfg)) k"
  shows "undo_stack (run (replicate k (Execute c)) cfg) = undo_stack cfg @ replicate k c"
proof -
  from assms(1) have "snapshot (run (replicate k (Execute c)) cfg) =
      fold next_snapshot (replicate k (Execute c)) (snapshot cfg)"
    using run_snapshot by blast
  then have "undo_stack (run (replicate k (Execute c)) cfg) =
      seen_undos (fold next_snapshot (replicate k (Execute c)) (snapshot cfg))"
    using seen_snapshot(3) [of "run (replicate k (Execute c)) cfg"] by simp
  also have "\<dots> = seen_undos (snapshot cfg) @ replicate k c"
    using assms(2,3) by (intro fold_executes) (simp_all add: seen_snapshot)
  finally show ?thesis by (simp add: seen_snapshot)
qed

lemma run_executes_undos:
  assumes "well_formed cfg" and "undo_stack cfg = []"
    and "\<forall>w. \<exists>x w'. execute_fn c w = (Inr x, w')"
    and "\<forall>w. \<exists>x w'. undo_fn c w = (Inr x, w')"
    and "\<forall>k. \<not> over_limit (options (fst cfg)) k"
    and "redo_stack cfg = []"
  shows "redo_stack (run (replicate k (Execute c) @ replicate k Undo) cfg) = replicate k c"
proof -
  let ?mid = "run (replicate k (Execute c)) cfg"
  from assms(1) have wf: "well_formed ?mid" using run_snapshot by blast
  have opts: "options (fst ?mid) = options (fst cfg)"
    using assms(1) by (rule run_options)
  have us: "undo_stack ?mid = replicate k c"
    using run_executes [OF assms(1,3,5), of k] assms(2) by simp
  have "snapshot ?mid = fold next_snapshot (replicate k (Execute c)) (snapshot cfg)"
    using assms(1) run_snapshot by blast
  moreover have "seen_redos (fold next_snapshot (replicate k (Execute c)) (snapshot cfg)) = []"
    using assms(6) by (intro fold_executes_redos) (simp add: seen_snapshot)
  ultimately have rs: "redo_stack ?mid = []"
    using seen_snapshot(4) [of ?mid] by simp
  from wf have "snapshot (run (replicate k Undo) ?mid) =
      fold next_snapshot (replicate k Undo) (snapshot ?mid)"
    using run_snapshot by blast
  then have "redo_stack (run (replicate k Undo) ?mid) =
      seen_redos (fold next_snapshot (replicate k Undo) (snapshot ?mid))"
    using seen_snapshot(4) [of "run (replicate k Undo) ?mid"] by simp
  also have "\<dots> = seen_redos (snapshot ?mid) @ replicate k c"
    using assms(4,5) opts us by (intro fold_undos) (simp_all add: seen_snapshot)
  finally show ?thesis by (simp add: seen_snapshot rs run_append)
qed

lemma unlimited_steps:
  assumes "well_formed cfg" and "\<forall>k. \<not> over_limit (options (fst cfg)) k"
  shows "(\<forall>c x w. execute_fn c (world (snd cfg)) = (Inr x, w) \<longrightarrow>
            undo_stack (step (Execute c) cfg) = undo_stack cfg @ [c]) \<and>
         (\<forall>x w. undo_stack cfg \<noteq> [] \<and>
                 undo_fn (last (undo_stack cfg)) (world (snd cfg)) = (Inr x, w) \<longrightarrow>
            redo_stack (step Undo cfg) = redo_stack cfg @ [last (undo_stack cfg)]) \<and>
         (\<forall>x w. redo_stack cfg \<noteq> [] \<and>
                 execute_fn (last (redo_stack cfg)) (world (snd cfg)) = (Inr x, w) \<longrightarrow>
            undo_stack (step Redo cfg) = undo_stack cfg @ [last (redo_stack cfg)])"
  using assms
  by (simp add: step_execute_effect(3) step_undo_effect(4) step_redo_effect(3) evicted_off)

lemma created_unlimited:
  assumes "cfg = run acts (createStack v arg m0)"
    and "maxStackSize (options (fst (createStack v arg m0))) = Undefined"
  shows "well_formed cfg" and "options (fst cfg) = options (fst (createStack v arg m0))"
    and "\<forall>k. \<not> over_limit (options (fst cfg)) k"
proof -
  have wf0: "well_formed (createStack v arg m0)" by (rule createStack_well_formed)
  then show "well_formed cfg" unfolding assms(1) using run_snapshot by blast
  show opts: "options (fst cfg) = options (fst (createStack v arg m0))"
    unfolding assms(1) using wf0 by (rule run_options)
  from assms(2) show "\<forall>k. \<not> over_limit (options (fst cfg)) k"
    unfolding opts by (simp add: over_limit_def)
qed

section \<open>Sizes other than 0\<close>

text \<open>
  The documentation of \<^verbatim>\<open>maxStackSize\<close>: the maximum number of commands to keep in the
  stack; when exceeded, the oldest commands are removed. For every size other than 0
  \<^verbatim>\<open>execute\<close> does so: it removes the oldest element of the appended list exactly when
  the length of the list exceeds the size. For a positive size the two arrays never hold
  more commands than the size, whatever the calls; with an undefined size they grow
  with every call.
\<close>

lemma execute_effect_other_sizes:
  assumes "execute_fn op (world m) = (Inr x, w)" and "maxStackSize (options s) \<noteq> Number 0"
  shows "\<exists>s' m'. execute s op m = (Inr s', m') \<and> current s' = x \<and> options s' = options s \<and>
           undo_stack (s', m') =
             (if \<exists>n. maxStackSize (options s) = Number n \<and>
                      n < int (length (undo_stack (s, m) @ [op]))
              then tl (undo_stack (s, m) @ [op]) else undo_stack (s, m) @ [op]) \<and>
           redo_stack (s', m') = []"
  using assms
  by (auto simp: execute_returns undo_stack_def redo_stack_def over_limit_def
      split: property.splits)

lemma positive_size_bounds_stacks:
  "(maxStackSize (options (fst (createStack v arg m0))) = Number n \<and> 0 < n \<longrightarrow>
      int (length (undo_stack (run acts (createStack v arg m0)))) \<le> n \<and>
      int (length (redo_stack (run acts (createStack v arg m0)))) \<le> n) \<and>
   (maxStackSize (options (fst (createStack v arg m0))) = Undefined \<and>
    (\<forall>w. \<exists>x w'. execute_fn c w = (Inr x, w')) \<and> (\<forall>w. \<exists>x w'. undo_fn c w = (Inr x, w')) \<longrightarrow>
      length (undo_stack (run (replicate k (Execute c)) (createStack v arg m0))) = k \<and>
      length (redo_stack (run (replicate k (Execute c) @ replicate k Undo) (createStack v arg m0))) = k)"
proof (intro conjI impI)
  assume "maxStackSize (options (fst (createStack v arg m0))) = Number n \<and> 0 < n"
  then have "int (length (undo_stack (run acts (createStack v arg m0)))) +
      int (length (redo_stack (run acts (createStack v arg m0)))) \<le> n"
    using created_total [of v arg m0 n acts] by blast
  then show "int (length (undo_stack (run acts (createStack v arg m0)))) \<le> n"
    and "int (length (redo_stack (run acts (createStack v arg m0)))) \<le> n"
    by linarith+
next
  let ?c0 = "createStack v arg m0"
  assume a: "maxStackSize (options (fst ?c0)) = Undefined \<and>
    (\<forall>w. \<exists>x w'. execute_fn c w = (Inr x, w')) \<and> (\<forall>w. \<exists>x w'. undo_fn c w = (Inr x, w'))"
  then have init: "maxStackSize (options (fst ?c0)) = Undefined" by simp
  have run0: "?c0 = run [] ?c0" by simp
  note c = created_unlimited [OF run0 init]
  have empty: "undo_stack ?c0 = []" "redo_stack ?c0 = []"
    by (simp_all add: createStack_eq undo_stack_def redo_stack_def)
  from a have cb: "\<forall>w. \<exists>x w'. execute_fn c w = (Inr x, w')"
    and cb2: "\<forall>w. \<exists>x w'. undo_fn c w = (Inr x, w')" by blast+
  show "length (undo_stack (run (replicate k (Execute c)) ?c0)) = k"
    using run_executes [OF c(1) cb c(3), of k] empty by simp
  show "length (redo_stack (run (replicate k (Execute c) @ replicate k Undo) ?c0)) = k"
    using run_executes_undos [OF c(1) empty(1) cb cb2 c(3) empty(2), of k] by simp
qed

lemmas code_defs =
  createStack_def execute_def undo_def redo_def clear_def new_array_def pop_def shift_def
  over_limit_def undo_stack_def redo_stack_def Let_def

section \<open>The claims\<close>

text \<open>
  C1. The claim: no transition changes the state it is given, neither its fields nor the
  contents of its undos and redos arrays. \<^verbatim>\<open>execute\<close> and \<^verbatim>\<open>clear\<close> copy, but
  \<^verbatim>\<open>undo\<close> calls \<^verbatim>\<open>state.undos.pop()\<close> and \<^verbatim>\<open>redo\<close> calls \<^verbatim>\<open>state.redos.pop()\<close>
  on the arrays of the input. Evaluated on the states of the test suite: the undos array
  of the state passed to \<^verbatim>\<open>undo\<close> holds one command before the call and none after
  it, and the same for the redos array of the state passed to \<^verbatim>\<open>redo\<close>; both calls
  return normally.
\<close>

theorem undo_and_redo_pop_their_input:
  "undo_stack executed_stack = [const_command 20 10] \<and>
   \<not> isl (fst (undo (fst executed_stack) (snd executed_stack))) \<and>
   undo_stack (fst executed_stack, snd (undo (fst executed_stack) (snd executed_stack))) = [] \<and>
   redo_stack undone_stack = [const_command 20 10] \<and>
   \<not> isl (fst (redo (fst undone_stack) (snd undone_stack))) \<and>
   redo_stack (fst undone_stack, snd (redo (fst undone_stack) (snd undone_stack))) = []"
  by (simp add: executed_stack_def undone_stack_def
      fresh_stack_def const_command_def empty_machine_def code_defs)

text \<open>
  C2. The claim: when a callback throws, nothing has been mutated yet. \<^verbatim>\<open>undo\<close> and
  \<^verbatim>\<open>redo\<close> pop the input array before they call the callback. Evaluated on a state
  whose last command cannot be undone: \<^verbatim>\<open>undo\<close> throws, and the undos array of the
  state it was given has lost that command. The same for \<^verbatim>\<open>redo\<close> and a command whose
  forward callback throws the second time it is called.
\<close>

theorem throwing_callback_after_pop:
  "undo_stack stuck_stack = [stuck_command 20] \<and>
   fst (undo (fst stuck_stack) (snd stuck_stack)) = Inl (Thrown ''cannot undo'') \<and>
   undo_stack (fst stuck_stack, snd (undo (fst stuck_stack) (snd stuck_stack))) = [] \<and>
   redo_stack once_stack = [once_command 20 10] \<and>
   fst (redo (fst once_stack) (snd once_stack)) = Inl (Thrown ''cannot redo'') \<and>
   redo_stack (fst once_stack, snd (redo (fst once_stack) (snd once_stack))) = []"
  by (simp add: stuck_stack_def once_stack_def stuck_command_def once_command_def
      fresh_stack_def const_command_def empty_machine_def code_defs)

text \<open>
  C3. The claim: with \<^verbatim>\<open>maxStackSize\<close> 0 every push is evicted at once and both arrays
  are always empty, as the documentation of the option says (the maximum number of
  commands to keep; when exceeded, the oldest commands are removed). The guard tests the
  size for truthiness and 0 is falsy, so nothing is ever removed. Evaluated on a stack
  created with \<^verbatim>\<open>{ maxStackSize: 0 }\<close>: after one \<^verbatim>\<open>execute\<close> the undos array holds the
  command, and after \<^verbatim>\<open>undo\<close> the redos array holds it.
\<close>

theorem zero_size_keeps_commands:
  "maxStackSize (options (fst zero_stack)) = Number 0 \<and>
   undo_stack (run [Execute (const_command 20 10)] zero_stack) = [const_command 20 10] \<and>
   redo_stack (run [Execute (const_command 20 10), Undo] zero_stack) = [const_command 20 10]"
  by (simp add: zero_stack_def const_command_def empty_machine_def code_defs)

text \<open>
  C4. The claim: whenever \<^verbatim>\<open>maxStackSize\<close> is set, the lengths of undos and redos are at
  most \<^verbatim>\<open>maxStackSize\<close> in every reachable state. Evaluated on a stack created with
  \<^verbatim>\<open>{ maxStackSize: 0 }\<close>: the size is set to 0, and after one \<^verbatim>\<open>execute\<close> the length
  of undos is 1, not at most 0. The guard misses the size 0, as for C3.
\<close>

theorem zero_size_not_a_bound:
  "maxStackSize (options (fst (run [Execute (const_command 20 10)] zero_stack))) = Number 0 \<and>
   \<not> int (length (undo_stack (run [Execute (const_command 20 10)] zero_stack))) \<le> 0"
  by (simp add: zero_stack_def const_command_def empty_machine_def code_defs)

text \<open>
  C5. The claim: \<^verbatim>\<open>execute\<close> appends the command to undos and, if the length of the
  appended list exceeds \<^verbatim>\<open>maxStackSize\<close>, removes its oldest element. Evaluated on a
  stack created with \<^verbatim>\<open>{ maxStackSize: 0 }\<close>: the appended list has length 1, which
  exceeds 0, and \<^verbatim>\<open>execute\<close> returns it whole. The guard misses the size 0, as for C3.
\<close>

theorem zero_size_execute_drops_nothing:
  "maxStackSize (options (fst zero_stack)) = Number 0 \<and>
   length (undo_stack zero_stack @ [const_command 20 10]) = 1 \<and>
   undo_stack (step (Execute (const_command 20 10)) zero_stack) =
     undo_stack zero_stack @ [const_command 20 10]"
  by (simp add: zero_stack_def const_command_def empty_machine_def code_defs)







text \<open>
  C8. For every state with an empty undos stack, \<^verbatim>\<open>undo\<close> returns the state it was given
  and is not an error; for every state with an empty redos stack, \<^verbatim>\<open>redo\<close> does the
  same. No callback runs: the machine, with the environment of the callbacks and every
  array, is the one that was passed in, whatever the other stack holds.
\<close>

theorem empty_stack_no_op:
  "(undo_stack (s, m) = [] \<longrightarrow> undo s m = (Inr s, m)) \<and>
   (redo_stack (s, m) = [] \<longrightarrow> redo s m = (Inr s, m))"
  by (simp add: undo_stack_def redo_stack_def undo_empty redo_empty)

theorem empty_stack_no_op_witness:
  "undo_stack fresh_stack = [] \<and> redo_stack fresh_stack = [] \<and>
   undo (fst fresh_stack) (snd fresh_stack) = (Inr (fst fresh_stack), snd fresh_stack) \<and>
   redo (fst fresh_stack) (snd fresh_stack) = (Inr (fst fresh_stack), snd fresh_stack)"
  using empty_stack_no_op [of "fst fresh_stack" "snd fresh_stack"]
  by (simp add: fresh_stack_def const_command_def empty_machine_def createStack_eq undo_stack_def redo_stack_def)

text \<open>
  C9. In every state reached from \<^verbatim>\<open>createStack\<close> with a positive \<^verbatim>\<open>maxStackSize\<close>
  \<open>n\<close> by any sequence of \<^verbatim>\<open>execute\<close>, \<^verbatim>\<open>undo\<close>, \<^verbatim>\<open>redo\<close> and \<^verbatim>\<open>clear\<close>, the lengths
  of undos and redos add up to at most \<open>n\<close>. So the guard of the eviction in \<^verbatim>\<open>undo\<close>
  and in \<^verbatim>\<open>redo\<close> is false there, and the array they build is the old one with the
  command appended, nothing shifted out. The guard in \<^verbatim>\<open>execute\<close> does hold when undos
  is full.
\<close>

theorem live_commands_within_limit:
  assumes "maxStackSize (options (fst (createStack v arg m0))) = Number n" and "0 < n"
    and "cfg = run acts (createStack v arg m0)"
  shows "int (length (undo_stack cfg)) + int (length (redo_stack cfg)) \<le> n \<and>
         (undo_stack cfg \<noteq> [] \<longrightarrow>
            \<not> over_limit (options (fst cfg)) (length (redo_stack cfg @ [last (undo_stack cfg)]))) \<and>
         (redo_stack cfg \<noteq> [] \<longrightarrow>
            \<not> over_limit (options (fst cfg)) (length (undo_stack cfg @ [last (redo_stack cfg)]))) \<and>
         (\<forall>x w. undo_stack cfg \<noteq> [] \<and>
                 undo_fn (last (undo_stack cfg)) (world (snd cfg)) = (Inr x, w) \<longrightarrow>
            redo_stack (step Undo cfg) = redo_stack cfg @ [last (undo_stack cfg)]) \<and>
         (\<forall>x w. redo_stack cfg \<noteq> [] \<and>
                 execute_fn (last (redo_stack cfg)) (world (snd cfg)) = (Inr x, w) \<longrightarrow>
            undo_stack (step Redo cfg) = undo_stack cfg @ [last (redo_stack cfg)]) \<and>
         (int (length (undo_stack cfg)) = n \<longrightarrow>
            over_limit (options (fst cfg)) (length (undo_stack cfg @ [c])))"
proof -
  have wf0: "well_formed (createStack v arg m0)" by (rule createStack_well_formed)
  then have wf: "well_formed cfg" unfolding assms(3) using run_snapshot by blast
  have "options (fst cfg) = options (fst (createStack v arg m0))"
    unfolding assms(3) using wf0 by (rule run_options)
  with assms(1) have opts: "maxStackSize (options (fst cfg)) = Number n" by simp
  have total: "int (length (undo_stack cfg)) + int (length (redo_stack cfg)) \<le> n"
    unfolding assms(3) using assms(1,2) by (rule created_total)
  have undo_guard: "\<not> over_limit (options (fst cfg)) (length (redo_stack cfg @ [last (undo_stack cfg)]))"
    if "undo_stack cfg \<noteq> []"
  proof -
    from that have "1 \<le> int (length (undo_stack cfg))"
      by (cases "undo_stack cfg") simp_all
    with total have "\<not> n < 1 + int (length (redo_stack cfg))" by linarith
    with opts show ?thesis by (simp add: over_limit_def)
  qed
  have redo_guard: "\<not> over_limit (options (fst cfg)) (length (undo_stack cfg @ [last (redo_stack cfg)]))"
    if "redo_stack cfg \<noteq> []"
  proof -
    from that have "1 \<le> int (length (redo_stack cfg))"
      by (cases "redo_stack cfg") simp_all
    with total have "\<not> n < 1 + int (length (undo_stack cfg))" by linarith
    with opts show ?thesis by (simp add: over_limit_def)
  qed
  have undo_eff: "redo_stack (step Undo cfg) = redo_stack cfg @ [last (undo_stack cfg)]"
    if "undo_stack cfg \<noteq> []" and "undo_fn (last (undo_stack cfg)) (world (snd cfg)) = (Inr x, w)"
    for x w
    using step_undo_effect(4) [OF wf that] undo_guard [OF that(1)] by (simp add: evicted_off)
  have redo_eff: "undo_stack (step Redo cfg) = undo_stack cfg @ [last (redo_stack cfg)]"
    if "redo_stack cfg \<noteq> []" and "execute_fn (last (redo_stack cfg)) (world (snd cfg)) = (Inr x, w)"
    for x w
    using step_redo_effect(3) [OF wf that] redo_guard [OF that(1)] by (simp add: evicted_off)
  have fires: "over_limit (options (fst cfg)) (length (undo_stack cfg @ [c]))"
    if "int (length (undo_stack cfg)) = n"
    using that opts assms(2) by (simp add: over_limit_def)
  from total undo_guard redo_guard undo_eff redo_eff fires show ?thesis
    by blast
qed

theorem live_commands_within_limit_witness:
  "maxStackSize (options (fst fresh_stack)) = Number 10 \<and> (0::int) < 10 \<and>
   undo_stack (two_then_undo fresh_stack) = [const_command 20 10] \<and>
   redo_stack (two_then_undo fresh_stack) = [const_command 30 20] \<and>
   int (length (undo_stack (two_then_undo fresh_stack))) +
     int (length (redo_stack (two_then_undo fresh_stack))) \<le> 10 \<and>
   \<not> over_limit (options (fst (two_then_undo fresh_stack)))
       (length (redo_stack (two_then_undo fresh_stack) @ [last (undo_stack (two_then_undo fresh_stack))])) \<and>
   redo_stack (step Undo (two_then_undo fresh_stack)) = [const_command 30 20, const_command 20 10] \<and>
   undo_stack (step Redo (two_then_undo fresh_stack)) = [const_command 20 10, const_command 30 20] \<and>
   maxStackSize (options (fst single_stack)) = Number 1 \<and>
   int (length (undo_stack (run [Execute (const_command 20 10)] single_stack))) = 1 \<and>
   over_limit (options (fst (run [Execute (const_command 20 10)] single_stack)))
     (length (undo_stack (run [Execute (const_command 20 10)] single_stack) @ [const_command 30 20]))"
proof -
  let ?Z = "two_then_undo fresh_stack"
  let ?S = "run [Execute (const_command 20 10)] single_stack"
  have ten: "maxStackSize (options (fst (createStack (10::int) None (empty_machine ())
      :: (int, unit) config))) = Number 10"
    and one: "maxStackSize (options (fst (createStack (10::int)
      (Some \<lparr>maxStackSize = Number 1\<rparr>) (empty_machine ()) :: (int, unit) config))) = Number 1"
    by (simp_all add: createStack_eq)
  have reach: "?Z = run [Execute (const_command 20 10), Execute (const_command 30 20), Undo]
      (createStack 10 None (empty_machine ()))"
    by (simp only: two_then_undo_def fresh_stack_def)
  have reach1: "?S = run [Execute (const_command 20 10)]
      (createStack 10 (Some \<lparr>maxStackSize = Number 1\<rparr>) (empty_machine ()))"
    by (simp only: single_stack_def)
  have us: "undo_stack ?Z = [const_command 20 10]"
    and rs: "redo_stack ?Z = [const_command 30 20]"
    by (simp_all add: two_then_undo_def fresh_stack_def const_command_def empty_machine_def
        code_defs)
  have full: "int (length (undo_stack ?S)) = 1"
    by (simp add: single_stack_def const_command_def empty_machine_def code_defs)
  have cb_undo: "undo_fn (last (undo_stack ?Z)) (world (snd ?Z)) = (Inr 10, ())"
    and cb_redo: "execute_fn (last (redo_stack ?Z)) (world (snd ?Z)) = (Inr 30, ())"
    unfolding us rs by (simp_all add: const_command_def)
  have pos: "(0::int) < 10" "(0::int) < 1" by simp_all
  from us have ne: "undo_stack ?Z \<noteq> []" by simp
  from rs have ne2: "redo_stack ?Z \<noteq> []" by simp
  note t = live_commands_within_limit [OF ten pos(1) reach]
  note s = live_commands_within_limit [OF one pos(2) reach1, of "const_command 30 20"]
  note t1 = t [THEN conjunct1]
  note t2 = t [THEN conjunct2, THEN conjunct1, rule_format, OF ne]
  note t4 = t [THEN conjunct2, THEN conjunct2, THEN conjunct2, THEN conjunct1, rule_format,
      OF conjI [OF ne cb_undo]]
  note t5 = t [THEN conjunct2, THEN conjunct2, THEN conjunct2, THEN conjunct2, THEN conjunct1,
      rule_format, OF conjI [OF ne2 cb_redo]]
  note s6 = s [THEN conjunct2, THEN conjunct2, THEN conjunct2, THEN conjunct2, THEN conjunct2,
      rule_format, OF full]
  have ten': "maxStackSize (options (fst fresh_stack)) = Number 10"
    and one': "maxStackSize (options (fst single_stack)) = Number 1"
    using ten one by (simp_all add: fresh_stack_def single_stack_def)
  from t4 have t4': "redo_stack (step Undo ?Z) = [const_command 30 20, const_command 20 10]"
    unfolding us rs by simp
  from t5 have t5': "undo_stack (step Redo ?Z) = [const_command 20 10, const_command 30 20]"
    unfolding us rs by simp
  show ?thesis
    by (intro conjI ten' pos(1) us rs t1 t2 t4' t5' one' full s6)
qed

text \<open>
  C10. \<^verbatim>\<open>createStack(initial, { maxStackSize: undefined })\<close> gives a state whose
  \<^verbatim>\<open>options.maxStackSize\<close> is undefined: the spread copies the key over the default 10.
  In every state reached from it the size is still undefined and nothing is evicted:
  \<^verbatim>\<open>execute\<close>, \<^verbatim>\<open>undo\<close> and \<^verbatim>\<open>redo\<close> append the command to the array they build, and
  \<open>k\<close> calls of \<^verbatim>\<open>execute\<close> add \<open>k\<close> entries to undos, for every \<open>k\<close>.
\<close>

theorem explicit_undefined_disables_limit:
  assumes "cfg = run acts (createStack v (Some \<lparr>maxStackSize = Undefined\<rparr>) m0)"
  shows "maxStackSize (options (fst (createStack v (Some \<lparr>maxStackSize = Undefined\<rparr>) m0
           :: ('a, 'b) config))) = Undefined \<and>
         maxStackSize (options (fst cfg)) = Undefined \<and>
         (\<forall>c x w. execute_fn c (world (snd cfg)) = (Inr x, w) \<longrightarrow>
            undo_stack (step (Execute c) cfg) = undo_stack cfg @ [c]) \<and>
         (\<forall>x w. undo_stack cfg \<noteq> [] \<and>
                 undo_fn (last (undo_stack cfg)) (world (snd cfg)) = (Inr x, w) \<longrightarrow>
            redo_stack (step Undo cfg) = redo_stack cfg @ [last (undo_stack cfg)]) \<and>
         (\<forall>x w. redo_stack cfg \<noteq> [] \<and>
                 execute_fn (last (redo_stack cfg)) (world (snd cfg)) = (Inr x, w) \<longrightarrow>
            undo_stack (step Redo cfg) = undo_stack cfg @ [last (redo_stack cfg)]) \<and>
         ((\<forall>w. \<exists>x w'. execute_fn c w = (Inr x, w')) \<longrightarrow>
            undo_stack (run (replicate k (Execute c)) cfg) = undo_stack cfg @ replicate k c)"
proof -
  let ?c0 = "createStack v (Some \<lparr>maxStackSize = Undefined\<rparr>) m0 :: ('a, 'b) config"
  have undef: "maxStackSize (options (fst ?c0)) = Undefined"
    by (simp add: createStack_eq)
  note c = created_unlimited [OF assms undef]
  from c(2) undef have "maxStackSize (options (fst cfg)) = Undefined" by simp
  moreover note unlimited_steps [OF c(1,3)] undef
  moreover have "(\<forall>w. \<exists>x w'. execute_fn c w = (Inr x, w')) \<longrightarrow>
      undo_stack (run (replicate k (Execute c)) cfg) = undo_stack cfg @ replicate k c"
    using run_executes [OF c(1) _ c(3)] by blast
  ultimately show ?thesis by blast
qed

theorem explicit_undefined_disables_limit_witness:
  "maxStackSize (options (fst undefined_stack)) = Undefined \<and>
   maxStackSize (options (fst (two_then_undo undefined_stack))) = Undefined \<and>
   undo_stack (two_then_undo undefined_stack) = [const_command 20 10] \<and>
   redo_stack (two_then_undo undefined_stack) = [const_command 30 20] \<and>
   undo_stack (step (Execute (const_command 40 30)) (two_then_undo undefined_stack)) =
     [const_command 20 10, const_command 40 30] \<and>
   redo_stack (step Undo (two_then_undo undefined_stack)) =
     [const_command 30 20, const_command 20 10] \<and>
   undo_stack (step Redo (two_then_undo undefined_stack)) =
     [const_command 20 10, const_command 30 20] \<and>
   undo_stack (run (replicate 12 (Execute (const_command 40 30))) (two_then_undo undefined_stack)) =
     const_command 20 10 # replicate 12 (const_command 40 30)"
proof -
  let ?Z = "two_then_undo undefined_stack"
  have reach: "?Z = run [Execute (const_command 20 10), Execute (const_command 30 20), Undo]
      (createStack 10 (Some \<lparr>maxStackSize = Undefined\<rparr>) (empty_machine ()))"
    by (simp only: two_then_undo_def undefined_stack_def)
  have us: "undo_stack ?Z = [const_command 20 10]"
    and rs: "redo_stack ?Z = [const_command 30 20]"
    by (simp_all add: two_then_undo_def undefined_stack_def const_command_def empty_machine_def
        code_defs)
  have cb: "execute_fn (const_command 40 30) (world (snd ?Z)) = (Inr (40::int), ())"
    and cb_undo: "undo_fn (last (undo_stack ?Z)) (world (snd ?Z)) = (Inr 10, ())"
    and cb_redo: "execute_fn (last (redo_stack ?Z)) (world (snd ?Z)) = (Inr 30, ())"
    and total: "\<forall>w. \<exists>x w'. execute_fn (const_command (40::int) 30) (w::unit) = (Inr x, w')"
    unfolding us rs by (simp_all add: const_command_def)
  from us have ne: "undo_stack ?Z \<noteq> []" by simp
  from rs have ne2: "redo_stack ?Z \<noteq> []" by simp
  note t = explicit_undefined_disables_limit [OF reach, of "const_command 40 30" 12]
  note t0 = t [THEN conjunct1, folded undefined_stack_def]
  note t1 = t [THEN conjunct2, THEN conjunct1]
  note t2 = t [THEN conjunct2, THEN conjunct2, THEN conjunct1, rule_format, OF cb]
  note t3 = t [THEN conjunct2, THEN conjunct2, THEN conjunct2, THEN conjunct1, rule_format,
      OF conjI [OF ne cb_undo]]
  note t4 = t [THEN conjunct2, THEN conjunct2, THEN conjunct2, THEN conjunct2, THEN conjunct1,
      rule_format, OF conjI [OF ne2 cb_redo]]
  note t5 = t [THEN conjunct2, THEN conjunct2, THEN conjunct2, THEN conjunct2, THEN conjunct2,
      THEN mp, OF total]
  from t0 t1 t2 t3 t4 t5 show ?thesis unfolding us rs by simp
qed

end
